theory Spec2Isabelle
  imports Complex_Main
begin

section \<open>The adaptive-height virtual scroll strategy of src/index.ts\<close>

text \<open>
  A shallow embedding of the class \<open>AdaptiveHeightStrategy\<close>. Pixel quantities (scroll
  offsets, item sizes, buffers) are JavaScript numbers and are modelled as \<open>real\<close>;
  indices and item counts are integral JavaScript numbers and are modelled as \<open>int\<close>
  (the code never mixes the two kinds). \<open>NaN\<close> and the infinities are outside the model.
  The field \<open>_items\<close> has the TypeScript type \<open>unknown[]\<close>, so it is a list; the
  optional chaining \<open>?.\<close> of the source guards a \<open>null\<close> that this type excludes.
\<close>

type_synonym px = real

subsection \<open>The viewport and the output stream\<close>

text \<open>The \<open>ListRange\<close> of the viewport: the fields \<open>start\<close> and \<open>end\<close>.\<close>

record ListRange =
  start :: int
  end' :: int

text \<open>
  Modelled from the spec: the class \<open>CdkVirtualScrollViewport\<close> belongs to the library
  \<open>@angular/cdk/scrolling\<close> and is not part of the source file. Following the viewport
  contract of the specification, it is a store: the three measurements are owned by the
  host, every getter returns what the matching setter stored last, and \<open>scrollToOffset\<close>
  is a command to the host that the strategy cannot observe.
\<close>

record viewport =
  scrollOffset :: px
  viewportSize :: px
  dataLength :: int
  renderedRange :: ListRange
  renderedContentOffset :: px
  totalContentSize :: px

datatype ScrollBehavior = Auto | Instant | Smooth

text \<open>Every method call that the strategy makes on a viewport, with its arguments.\<close>

datatype vcall =
    MeasureScrollOffset
  | GetRenderedRange
  | GetViewportSize
  | GetDataLength
  | SetRenderedRange ListRange
  | SetRenderedContentOffset px
  | SetTotalContentSize px
  | ScrollToOffset px ScrollBehavior

definition measureScrollOffset :: "viewport \<Rightarrow> px" where
  "measureScrollOffset v = scrollOffset v"

definition getRenderedRange :: "viewport \<Rightarrow> ListRange" where
  "getRenderedRange v = renderedRange v"

definition getViewportSize :: "viewport \<Rightarrow> px" where
  "getViewportSize v = viewportSize v"

definition getDataLength :: "viewport \<Rightarrow> int" where
  "getDataLength v = dataLength v"

definition setRenderedRange :: "ListRange \<Rightarrow> viewport \<Rightarrow> viewport" where
  "setRenderedRange r v = v\<lparr>renderedRange := r\<rparr>"

definition setRenderedContentOffset :: "px \<Rightarrow> viewport \<Rightarrow> viewport" where
  "setRenderedContentOffset p v = v\<lparr>renderedContentOffset := p\<rparr>"

definition setTotalContentSize :: "px \<Rightarrow> viewport \<Rightarrow> viewport" where
  "setTotalContentSize p v = v\<lparr>totalContentSize := p\<rparr>"

definition scrollToOffset :: "px \<Rightarrow> ScrollBehavior \<Rightarrow> viewport \<Rightarrow> viewport" where
  "scrollToOffset p b v = v"

subsection \<open>The state of a strategy\<close>

text \<open>
  The private fields of the class, in the order of their declaration, followed by what the
  outside observes: \<open>stopped\<close> is the state of the \<open>Subject\<close> behind
  \<open>_scrolledIndexChange\<close>, \<open>lastPassed\<close> is the memory of \<open>distinctUntilChanged\<close>,
  \<open>delivered\<close> lists the values that an observer subscribed to \<open>scrolledIndexChange\<close>
  since the construction has received (oldest first), and \<open>calls\<close> lists the
  viewport calls made so far (oldest first).
  The field \<open>viewport\<close> is \<open>_viewport\<close>: \<open>None\<close> is \<open>null\<close>, and an attached
  viewport is carried with its current state.
\<close>

record 'a strategy =
  stopped :: bool
  lastPassed :: "int option"
  delivered :: "int list"
  viewport :: "viewport option"
  itemSizeFn :: "'a \<Rightarrow> px"
  items :: "'a list"
  minBufferPx :: px
  maxBufferPx :: px
  calls :: "vcall list"

datatype error = Error string

datatype 'a result = Returned "'a strategy" | Threw error "'a strategy"

text \<open>
  Modelled from the spec: \<open>Subject\<close> and \<open>distinctUntilChanged\<close> belong to the library
  \<open>rxjs\<close>. A completed subject delivers nothing more and completing it again does
  nothing; the operator passes a value on unless it equals the value passed on last.
\<close>

definition distinctUntilChanged :: "int \<Rightarrow> 'a strategy \<Rightarrow> 'a strategy" where
  "distinctUntilChanged n s =
     (if lastPassed s = Some n then s
      else s\<lparr>lastPassed := Some n, delivered := delivered s @ [n]\<rparr>)"

definition subject_next :: "int \<Rightarrow> 'a strategy \<Rightarrow> 'a strategy" where
  "subject_next n s = (if stopped s then s else distinctUntilChanged n s)"

definition subject_complete :: "'a strategy \<Rightarrow> 'a strategy" where
  "subject_complete s = (if stopped s then s else s\<lparr>stopped := True\<rparr>)"

subsection \<open>Sizes and indices\<close>

text \<open>
  \<open>Array.prototype.slice(0, k)\<close> for an integral \<open>k\<close>: a negative \<open>k\<close> counts from
  the end of the array, and a \<open>k\<close> beyond the length yields the whole array.
\<close>

definition slice0 :: "'a list \<Rightarrow> int \<Rightarrow> 'a list" where
  "slice0 xs k =
     (if k < 0 then take (nat (max (int (length xs) + k) 0)) xs
      else take (nat (min k (int (length xs)))) xs)"

text \<open>\<open>_getItemSize\<close>: a \<open>reduce\<close> from \<open>0\<close> with the callback \<open>itemSizeFn(curr) + acc\<close>.\<close>

definition getItemSize :: "'a strategy \<Rightarrow> 'a list \<Rightarrow> px" where
  "getItemSize s data = foldl (\<lambda>acc item. itemSizeFn s item + acc) 0 data"

text \<open>
  \<open>_getFirstVisibleIndex\<close>: the callback of \<open>forEach\<close> works on the two local variables
  \<open>acc\<close> and \<open>ind\<close>; its \<open>return\<close> leaves the callback, not the iteration, so every
  item is visited (\<open>item\<close> is the parameter \<open>curr\<close> of the callbacks).
\<close>

definition visit :: "('a \<Rightarrow> px) \<Rightarrow> px \<Rightarrow> px \<times> int \<Rightarrow> 'a \<Rightarrow> px \<times> int" where
  "visit f offset st item =
     (case st of (acc, ind) \<Rightarrow>
        if acc > offset then (acc, ind) else (acc + f item, ind + 1))"

definition getFirstVisibleIndex :: "'a strategy \<Rightarrow> px \<Rightarrow> int" where
  "getFirstVisibleIndex s offset =
     snd (foldl (visit (itemSizeFn s) offset) (0, 0) (items s))"

text \<open>
  The walk that the specification describes for \<open>firstIndexAtOrBeyond\<close>: sizes are
  accumulated while \<open>acc \<le> offset\<close>, the walk stops once \<open>acc > offset\<close>, and the
  result is the number of items consumed.
\<close>

fun reference_walk :: "('a \<Rightarrow> px) \<Rightarrow> px \<Rightarrow> px \<Rightarrow> 'a list \<Rightarrow> int" where
  "reference_walk f offset acc [] = 0"
| "reference_walk f offset acc (x # xs) =
     (if acc \<le> offset then 1 + reference_walk f offset (acc + f x) xs else 0)"

text \<open>The total size of the specification: the sum of the sizes of all items.\<close>

definition totalSize :: "('a \<Rightarrow> px) \<Rightarrow> 'a list \<Rightarrow> px" where
  "totalSize f xs = sum_list (map f xs)"

text \<open>
  The cumulative size of the specification: the sum of the sizes of the first \<open>k\<close> items.
\<close>

definition cumulativeSize :: "('a \<Rightarrow> px) \<Rightarrow> 'a list \<Rightarrow> int \<Rightarrow> px" where
  "cumulativeSize f xs k = sum_list (map f (take (nat k) xs))"

subsection \<open>The operations of the class\<close>

definition constructor :: "('a \<Rightarrow> px) \<Rightarrow> 'a list \<Rightarrow> px \<Rightarrow> px \<Rightarrow> 'a strategy" where
  "constructor f xs minB maxB =
     \<lparr>stopped = False, lastPassed = None, delivered = [], viewport = None,
      itemSizeFn = f, items = xs, minBufferPx = minB, maxBufferPx = maxB, calls = []\<rparr>"

definition updateTotalContentSize :: "'a strategy \<Rightarrow> 'a strategy" where
  "updateTotalContentSize s =
     (case viewport s of
        None \<Rightarrow> s
      | Some v \<Rightarrow>
          let total = getItemSize s (items s)
          in s\<lparr>viewport := Some (setTotalContentSize total v),
                calls := calls s @ [SetTotalContentSize total]\<rparr>)"

text \<open>
  The local object \<open>newRange\<close> of \<open>_updateRenderedRange\<close> when it reaches the call of
  \<open>setRenderedRange\<close>. The arguments of \<open>Math.ceil\<close> are item counts, which it returns
  unchanged.
\<close>

definition newRange :: "'a strategy \<Rightarrow> px \<Rightarrow> int \<Rightarrow> ListRange \<Rightarrow> px \<Rightarrow> int \<Rightarrow> ListRange" where
  "newRange s scrollOff firstVisibleIndex rendered viewportSz dataLen =
     (let range0 = \<lparr>start = start rendered, end' = end' rendered\<rparr>;
          startBuffer = scrollOff - getItemSize s (slice0 (items s) (start range0))
      in if startBuffer < minBufferPx s \<and> start range0 \<noteq> 0 then
           let expandStart = getFirstVisibleIndex s (maxBufferPx s - startBuffer);
               range1 = range0\<lparr>start := max 0 (start range0 - expandStart)\<rparr>
           in range1\<lparr>end' := min dataLen
                (firstVisibleIndex + getFirstVisibleIndex s (viewportSz + minBufferPx s))\<rparr>
         else
           let endBuffer =
                 getItemSize s (slice0 (items s) (end' range0)) - (scrollOff + viewportSz)
           in if endBuffer < minBufferPx s \<and> end' range0 \<noteq> dataLen then
                let expandEnd = getFirstVisibleIndex s (maxBufferPx s - endBuffer)
                in if expandEnd > 0 then
                     let range1 = range0\<lparr>end' := min dataLen (end' range0 + expandEnd)\<rparr>
                     in range1\<lparr>start := max 0
                          (firstVisibleIndex - getFirstVisibleIndex s (minBufferPx s))\<rparr>
                   else range0
              else range0)"

text \<open>
  \<open>_updateRenderedRange\<close>. The value published is \<open>Math.floor\<close> of an item count, that
  is, the count itself.
\<close>

definition updateRenderedRange :: "'a strategy \<Rightarrow> 'a strategy" where
  "updateRenderedRange s =
     (case viewport s of
        None \<Rightarrow> s
      | Some v \<Rightarrow>
          let scrollOff = measureScrollOffset v;
              firstVisibleIndex = getFirstVisibleIndex s scrollOff;
              rendered = getRenderedRange v;
              viewportSz = getViewportSize v;
              dataLen = getDataLength v;
              range = newRange s scrollOff firstVisibleIndex rendered viewportSz dataLen;
              contentOffset = getItemSize s (slice0 (items s) (start range))
          in subject_next firstVisibleIndex
               (s\<lparr>viewport := Some (setRenderedContentOffset contentOffset (setRenderedRange range v)),
                  calls := calls s @
                    [MeasureScrollOffset, GetRenderedRange, GetViewportSize, GetDataLength,
                     SetRenderedRange range, SetRenderedContentOffset contentOffset]\<rparr>))"

definition attach :: "viewport \<Rightarrow> 'a strategy \<Rightarrow> 'a strategy" where
  "attach v s = updateRenderedRange (updateTotalContentSize (s\<lparr>viewport := Some v\<rparr>))"

definition detach :: "'a strategy \<Rightarrow> 'a strategy" where
  "detach s = (subject_complete s)\<lparr>viewport := None\<rparr>"

definition updateItemAndBufferSize ::
  "('a \<Rightarrow> px) \<Rightarrow> 'a list \<Rightarrow> px \<Rightarrow> px \<Rightarrow> 'a strategy \<Rightarrow> 'a result" where
  "updateItemAndBufferSize f xs minB maxB s =
     (if maxB < minB then
        Threw (Error ''CDK virtual scroll: maxBufferPx must be greater than or equal to minBufferPx'') s
      else
        Returned (updateRenderedRange (updateTotalContentSize
          (s\<lparr>items := xs, itemSizeFn := f, minBufferPx := minB, maxBufferPx := maxB\<rparr>))))"

definition onContentScrolled :: "'a strategy \<Rightarrow> 'a strategy" where
  "onContentScrolled s = updateRenderedRange s"

definition onDataLengthChanged :: "'a strategy \<Rightarrow> 'a strategy" where
  "onDataLengthChanged s = updateRenderedRange (updateTotalContentSize s)"

definition onContentRendered :: "'a strategy \<Rightarrow> 'a strategy" where
  "onContentRendered s = s"

definition onRenderedOffsetChanged :: "'a strategy \<Rightarrow> 'a strategy" where
  "onRenderedOffsetChanged s = s"

definition scrollToIndex :: "int \<Rightarrow> ScrollBehavior \<Rightarrow> 'a strategy \<Rightarrow> 'a strategy" where
  "scrollToIndex index behavior s =
     (case viewport s of
        None \<Rightarrow> s
      | Some v \<Rightarrow>
          let target = getItemSize s (slice0 (items s) index)
          in s\<lparr>viewport := Some (scrollToOffset target behavior v),
                calls := calls s @ [ScrollToOffset target behavior]\<rparr>)"

subsection \<open>Sequences of calls\<close>

text \<open>
  A host calls the public methods one after the other; a call that throws leaves the
  strategy in the state it had at the \<open>throw\<close>, and the host goes on with that state.
\<close>

datatype 'a call =
    Attach viewport
  | Detach
  | UpdateItemAndBufferSize "'a \<Rightarrow> px" "'a list" px px
  | OnContentScrolled
  | OnDataLengthChanged
  | OnContentRendered
  | OnRenderedOffsetChanged
  | ScrollToIndex int ScrollBehavior

fun perform :: "'a call \<Rightarrow> 'a strategy \<Rightarrow> 'a result" where
  "perform (Attach v) s = Returned (attach v s)"
| "perform Detach s = Returned (detach s)"
| "perform (UpdateItemAndBufferSize f xs minB maxB) s = updateItemAndBufferSize f xs minB maxB s"
| "perform OnContentScrolled s = Returned (onContentScrolled s)"
| "perform OnDataLengthChanged s = Returned (onDataLengthChanged s)"
| "perform OnContentRendered s = Returned (onContentRendered s)"
| "perform OnRenderedOffsetChanged s = Returned (onRenderedOffsetChanged s)"
| "perform (ScrollToIndex index behavior) s = Returned (scrollToIndex index behavior s)"

fun state_of :: "'a result \<Rightarrow> 'a strategy" where
  "state_of (Returned s) = s"
| "state_of (Threw e s) = s"

fun is_Attach :: "'a call \<Rightarrow> bool" where
  "is_Attach (Attach v) = True"
| "is_Attach c = False"

fun after_calls :: "'a call list \<Rightarrow> 'a strategy \<Rightarrow> 'a strategy" where
  "after_calls [] s = s"
| "after_calls (c # cs) s = after_calls cs (state_of (perform c s))"

subsection \<open>The range update as the specification words it\<close>

text \<open>
  The two-branch update of the rendered range, written from the specification with its
  own \<open>cumulativeSize\<close> and its own walk for \<open>firstIndexAtOrBeyond\<close>.
\<close>

definition spec_range ::
  "('a \<Rightarrow> px) \<Rightarrow> 'a list \<Rightarrow> px \<Rightarrow> px \<Rightarrow> px \<Rightarrow> px \<Rightarrow> int \<Rightarrow> ListRange \<Rightarrow> ListRange" where
  "spec_range f xs minB maxB scrollOff viewportSz dataLen r =
     (let firstIndexAtOrBeyond = (\<lambda>p. reference_walk f p 0 xs);
          firstVisibleIndex = firstIndexAtOrBeyond scrollOff;
          startBuffer = scrollOff - cumulativeSize f xs (start r);
          endBuffer = cumulativeSize f xs (end' r) - (scrollOff + viewportSz);
          expandEnd = firstIndexAtOrBeyond (maxB - endBuffer)
      in if startBuffer < minB \<and> start r \<noteq> 0 then
           \<lparr>start = max 0 (start r - firstIndexAtOrBeyond (maxB - startBuffer)),
            end' = min dataLen (firstVisibleIndex + firstIndexAtOrBeyond (viewportSz + minB))\<rparr>
         else if endBuffer < minB \<and> end' r \<noteq> dataLen \<and> 0 < expandEnd then
           \<lparr>start = max 0 (firstVisibleIndex - firstIndexAtOrBeyond minB),
            end' = min dataLen (end' r + expandEnd)\<rparr>
         else r)"

subsection \<open>Auxiliary notions for the statements\<close>

text \<open>The invariant that the specification states for a rendered range.\<close>

definition range_invariant :: "ListRange \<Rightarrow> int \<Rightarrow> bool" where
  "range_invariant r n = (0 \<le> start r \<and> start r \<le> end' r \<and> end' r \<le> n)"

text \<open>
  The range that \<open>_updateRenderedRange\<close> passes to \<open>setRenderedRange\<close> when the attached
  viewport is in the state \<open>v\<close>.
\<close>

definition committed :: "'a strategy \<Rightarrow> viewport \<Rightarrow> ListRange" where
  "committed s v =
     newRange s (scrollOffset v) (getFirstVisibleIndex s (scrollOffset v))
       (renderedRange v) (viewportSize v) (dataLength v)"

text \<open>
  A viewport with the given scroll offset, viewport size, data length and rendered range
  (content offset and total content size are those of a viewport nobody has written to).
\<close>

definition viewport_at :: "px \<Rightarrow> px \<Rightarrow> int \<Rightarrow> int \<Rightarrow> int \<Rightarrow> viewport" where
  "viewport_at scrollOff viewportSz dataLen i j =
     \<lparr>scrollOffset = scrollOff, viewportSize = viewportSz, dataLength = dataLen,
      renderedRange = \<lparr>start = i, end' = j\<rparr>,
      renderedContentOffset = 0, totalContentSize = 0\<rparr>"

section \<open>Properties\<close>

subsection \<open>The index walk\<close>

lemma visit_past:
  "offset < acc \<Longrightarrow> foldl (visit f offset) (acc, ind) xs = (acc, ind)"
  by (induction xs) (simp_all add: visit_def)

lemma foldl_visit_walk:
  "snd (foldl (visit f offset) (acc, ind) xs) = ind + reference_walk f offset acc xs"
proof (induction xs arbitrary: acc ind)
  case Nil
  show ?case by simp
next
  case (Cons x xs)
  show ?case
  proof (cases "offset < acc")
    case True
    have "foldl (visit f offset) (acc, ind) (x # xs) = (acc, ind)"
      using True by (rule visit_past)
    with True show ?thesis by simp
  next
    case False
    have "foldl (visit f offset) (acc, ind) (x # xs)
          = foldl (visit f offset) (acc + f x, ind + 1) xs"
      using False by (simp add: visit_def)
    with False Cons.IH [of "acc + f x" "ind + 1"] show ?thesis by simp
  qed
qed

lemma reference_walk_bounds:
  "0 \<le> reference_walk f offset acc xs \<and> reference_walk f offset acc xs \<le> int (length xs)"
proof (induction xs arbitrary: acc)
  case Nil
  show ?case by simp
next
  case (Cons x xs)
  from Cons.IH [of "acc + f x"] show ?case by simp
qed

lemma reference_walk_all:
  "\<forall>x \<in> set xs. 0 \<le> f x \<Longrightarrow> acc + totalSize f xs \<le> offset \<Longrightarrow>
   reference_walk f offset acc xs = int (length xs)"
proof (induction xs arbitrary: acc)
  case Nil
  show ?case by simp
next
  case (Cons x xs)
  have rest: "0 \<le> totalSize f xs"
    unfolding totalSize_def using Cons.prems(1) by (intro sum_list_nonneg) auto
  have here: "0 \<le> f x"
    using Cons.prems(1) by simp
  have total: "acc + f x + totalSize f xs \<le> offset"
    using Cons.prems(2) by (simp add: totalSize_def)
  have "acc \<le> offset"
    using rest here total by linarith
  moreover have "reference_walk f offset (acc + f x) xs = int (length xs)"
    using Cons.IH [of "acc + f x"] Cons.prems(1) total by simp
  ultimately show ?case by simp
qed

lemma getFirstVisibleIndex_walk:
  "getFirstVisibleIndex s offset = reference_walk (itemSizeFn s) offset 0 (items s)"
  by (simp add: getFirstVisibleIndex_def foldl_visit_walk)

subsection \<open>Sizes, slices and the effects of the two private updates\<close>

lemma foldl_size_sum:
  "foldl (\<lambda>acc item. f item + acc) (a::real) data = a + sum_list (map f data)"
  by (induction data arbitrary: a) simp_all

lemma getItemSize_totalSize: "getItemSize s data = totalSize (itemSizeFn s) data"
  by (simp add: getItemSize_def totalSize_def foldl_size_sum)

lemma slice0_nonneg: "0 \<le> k \<Longrightarrow> slice0 xs k = take (nat k) xs"
  by (simp add: slice0_def min_def)

lemma getItemSize_slice0:
  "0 \<le> k \<Longrightarrow> getItemSize s (slice0 (items s) k) = cumulativeSize (itemSizeFn s) (items s) k"
  by (simp add: getItemSize_totalSize totalSize_def cumulativeSize_def slice0_nonneg)

lemma newRange_spec_range:
  assumes "0 \<le> start r" and "0 \<le> end' r"
  shows "newRange s scrollOff (getFirstVisibleIndex s scrollOff) r viewportSz dataLen
         = spec_range (itemSizeFn s) (items s) (minBufferPx s) (maxBufferPx s)
             scrollOff viewportSz dataLen r"
  using assms
  by (simp add: newRange_def spec_range_def Let_def getFirstVisibleIndex_walk getItemSize_slice0)

lemma updateRenderedRange_detached: "viewport s = None \<Longrightarrow> updateRenderedRange s = s"
  by (simp add: updateRenderedRange_def)

lemma viewport_updateRenderedRange:
  assumes "viewport s = Some v"
  shows "viewport (updateRenderedRange s) =
           Some (v\<lparr>renderedRange := committed s v,
                    renderedContentOffset := getItemSize s (slice0 (items s) (start (committed s v)))\<rparr>)"
  using assms
  by (simp add: updateRenderedRange_def Let_def subject_next_def distinctUntilChanged_def
      measureScrollOffset_def getRenderedRange_def getViewportSize_def getDataLength_def
      setRenderedRange_def setRenderedContentOffset_def committed_def)

lemma calls_updateRenderedRange:
  assumes "viewport s = Some v"
  shows "calls (updateRenderedRange s) =
           calls s @ [MeasureScrollOffset, GetRenderedRange, GetViewportSize, GetDataLength,
                      SetRenderedRange (committed s v),
                      SetRenderedContentOffset (getItemSize s (slice0 (items s) (start (committed s v))))]"
  using assms
  by (simp add: updateRenderedRange_def Let_def subject_next_def distinctUntilChanged_def
      measureScrollOffset_def getRenderedRange_def getViewportSize_def getDataLength_def
      committed_def)

lemma viewport_updateTotalContentSize:
  "viewport s = Some v \<Longrightarrow>
   viewport (updateTotalContentSize s) = Some (v\<lparr>totalContentSize := getItemSize s (items s)\<rparr>)"
  by (simp add: updateTotalContentSize_def Let_def setTotalContentSize_def)

lemma calls_updateTotalContentSize:
  "viewport s = Some v \<Longrightarrow>
   calls (updateTotalContentSize s) = calls s @ [SetTotalContentSize (getItemSize s (items s))]"
  by (simp add: updateTotalContentSize_def Let_def)

lemma updateTotalContentSize_detached: "viewport s = None \<Longrightarrow> updateTotalContentSize s = s"
  by (simp add: updateTotalContentSize_def)

lemma getFirstVisibleIndex_nonneg: "0 \<le> getFirstVisibleIndex s offset"
  unfolding getFirstVisibleIndex_walk using reference_walk_bounds [of "itemSizeFn s" offset 0 "items s"] by simp

lemma newRange_within:
  assumes "0 \<le> start r" and "0 \<le> end' r" and "end' r \<le> dataLen" and "0 \<le> fvi"
  shows "0 \<le> start (newRange s scrollOff fvi r viewportSz dataLen)
       \<and> 0 \<le> end' (newRange s scrollOff fvi r viewportSz dataLen)
       \<and> end' (newRange s scrollOff fvi r viewportSz dataLen) \<le> dataLen"
proof -
  have a: "0 \<le> getFirstVisibleIndex s (viewportSz + minBufferPx s)"
    by (rule getFirstVisibleIndex_nonneg)
  show ?thesis
    using assms a by (simp add: newRange_def Let_def)
qed

lemma committed_within:
  assumes "0 \<le> start (renderedRange v)" and "0 \<le> end' (renderedRange v)"
    and "end' (renderedRange v) \<le> dataLength v"
  shows "0 \<le> start (committed s v) \<and> 0 \<le> end' (committed s v)
         \<and> end' (committed s v) \<le> dataLength v"
  unfolding committed_def
  using assms getFirstVisibleIndex_nonneg by (intro newRange_within) auto

subsection \<open>The claims about the index walk\<close>

text \<open>
  C10. For every item collection, every size function (of any sign) and every offset
  (negative, or at or beyond the total size), \<open>_getFirstVisibleIndex\<close> returns an
  integer between \<open>0\<close> and the length of the collection.
\<close>

theorem getFirstVisibleIndex_in_bounds:
  "0 \<le> getFirstVisibleIndex s offset
   \<and> getFirstVisibleIndex s offset \<le> int (length (items s))"
  unfolding getFirstVisibleIndex_walk by (rule reference_walk_bounds)

text \<open>
  C4. For every item collection and every offset, \<open>_getFirstVisibleIndex\<close> returns
  exactly the number of items consumed by the reference walk, which accumulates sizes
  while \<open>acc \<le> offset\<close> and stops once \<open>acc > offset\<close>. Consequently the empty
  collection yields \<open>0\<close> for every offset, and with a non-negative size function every
  offset at or beyond the total size yields the length of the collection.
\<close>

theorem getFirstVisibleIndex_is_reference_walk:
  "getFirstVisibleIndex s offset = reference_walk (itemSizeFn s) offset 0 (items s)
   \<and> (items s = [] \<longrightarrow> getFirstVisibleIndex s offset = 0)
   \<and> ((\<forall>x \<in> set (items s). 0 \<le> itemSizeFn s x) \<and> totalSize (itemSizeFn s) (items s) \<le> offset
        \<longrightarrow> getFirstVisibleIndex s offset = int (length (items s)))"
proof (intro conjI impI)
  show "getFirstVisibleIndex s offset = reference_walk (itemSizeFn s) offset 0 (items s)"
    by (rule getFirstVisibleIndex_walk)
next
  assume "items s = []"
  then show "getFirstVisibleIndex s offset = 0"
    by (simp add: getFirstVisibleIndex_walk)
next
  assume h: "(\<forall>x \<in> set (items s). 0 \<le> itemSizeFn s x) \<and> totalSize (itemSizeFn s) (items s) \<le> offset"
  then have "reference_walk (itemSizeFn s) offset 0 (items s) = int (length (items s))"
    by (intro reference_walk_all) simp_all
  then show "getFirstVisibleIndex s offset = int (length (items s))"
    by (simp add: getFirstVisibleIndex_walk)
qed

theorem getFirstVisibleIndex_is_reference_walk_witness:
  "getFirstVisibleIndex (constructor id [20, 20, 20] 100 200) 60 = 3
   \<and> getFirstVisibleIndex (constructor id [] 100 200) 60 = 0"
  using getFirstVisibleIndex_is_reference_walk [of "constructor id [20, 20, 20] 100 200" 60]
    getFirstVisibleIndex_is_reference_walk [of "constructor id [] 100 200" 60]
  by (simp add: constructor_def totalSize_def)

subsection \<open>The update of the rendered range\<close>

lemma newRange_start_nonneg:
  "0 \<le> start r \<Longrightarrow> 0 \<le> start (newRange s scrollOff fvi r viewportSz dataLen)"
  by (simp add: newRange_def Let_def)

text \<open>
  C1. A recomputation pass on an attached viewport whose rendered range has non-negative
  indices follows the two-branch algorithm of the specification exactly: the range passed
  to \<open>setRenderedRange\<close> and stored in the viewport is \<open>spec_range\<close>, that is, the
  start-side expansion if \<open>startBuffer < minBufferPx\<close> and \<open>start \<noteq> 0\<close>, otherwise the
  end-side expansion if \<open>endBuffer < minBufferPx\<close>, \<open>end \<noteq> dataLength\<close> and
  \<open>expandEnd > 0\<close>, and otherwise the range the viewport reported.
\<close>

theorem updateRenderedRange_follows_spec_range:
  assumes "viewport s = Some v"
    and "0 \<le> start (renderedRange v)" and "0 \<le> end' (renderedRange v)"
    and "R = spec_range (itemSizeFn s) (items s) (minBufferPx s) (maxBufferPx s)
               (scrollOffset v) (viewportSize v) (dataLength v) (renderedRange v)"
  shows "map_option renderedRange (viewport (updateRenderedRange s)) = Some R
       \<and> calls (updateRenderedRange s)
         = calls s @ [MeasureScrollOffset, GetRenderedRange, GetViewportSize, GetDataLength,
                      SetRenderedRange R,
                      SetRenderedContentOffset (cumulativeSize (itemSizeFn s) (items s) (start R))]"
proof -
  have eq: "committed s v = R"
    unfolding committed_def assms(4) using assms(2,3) by (rule newRange_spec_range)
  have "0 \<le> start (committed s v)"
    unfolding committed_def using assms(2) by (rule newRange_start_nonneg)
  then have "getItemSize s (slice0 (items s) (start (committed s v)))
             = cumulativeSize (itemSizeFn s) (items s) (start (committed s v))"
    by (rule getItemSize_slice0)
  with eq show ?thesis
    using assms(1) by (simp add: viewport_updateRenderedRange calls_updateRenderedRange)
qed

theorem updateRenderedRange_follows_spec_range_witness:
  "map_option renderedRange
     (viewport (updateRenderedRange
        ((constructor id [20, 20, 20, 20, 20, 20] 10 20)\<lparr>viewport := Some (viewport_at 45 30 6 2 3)\<rparr>)))
   = Some \<lparr>start = 1, end' = 6\<rparr>"
proof -
  let ?s = "(constructor id [20, 20, 20, 20, 20, 20] 10 20)\<lparr>viewport := Some (viewport_at 45 30 6 2 3)\<rparr>"
  let ?v = "viewport_at 45 30 6 2 3"
  have attached: "viewport ?s = Some ?v"
    by simp
  have first: "0 \<le> start (renderedRange ?v)" and last: "0 \<le> end' (renderedRange ?v)"
    by (simp_all add: viewport_at_def)
  have range: "\<lparr>start = 1, end' = 6\<rparr>
      = spec_range (itemSizeFn ?s) (items ?s) (minBufferPx ?s) (maxBufferPx ?s)
          (scrollOffset ?v) (viewportSize ?v) (dataLength ?v) (renderedRange ?v)"
    by code_simp
  from updateRenderedRange_follows_spec_range [OF attached first last range]
  show ?thesis by simp
qed

subsection \<open>Bounds of the committed range\<close>

lemma updateRenderedRange_commits_within:
  assumes "viewport t = Some u"
    and "0 \<le> start (renderedRange u)" and "0 \<le> end' (renderedRange u)"
    and "end' (renderedRange u) \<le> dataLength u"
  shows "\<exists>R u'. viewport (updateRenderedRange t) = Some u' \<and> renderedRange u' = R
           \<and> dataLength u' = dataLength u
           \<and> last (butlast (calls (updateRenderedRange t))) = SetRenderedRange R
           \<and> 0 \<le> start R \<and> 0 \<le> end' R \<and> end' R \<le> dataLength u"
proof -
  have "last (butlast (calls (updateRenderedRange t))) = SetRenderedRange (committed t u)"
    by (simp add: calls_updateRenderedRange [OF assms(1)] butlast_append)
  moreover have "0 \<le> start (committed t u) \<and> 0 \<le> end' (committed t u)
         \<and> end' (committed t u) \<le> dataLength u"
    using assms(2-4) by (rule committed_within)
  ultimately show ?thesis
    by (simp add: viewport_updateRenderedRange [OF assms(1)])
qed

lemma total_then_range_commits_within:
  assumes "viewport t = Some u"
    and "0 \<le> start (renderedRange u)" and "0 \<le> end' (renderedRange u)"
    and "end' (renderedRange u) \<le> dataLength u"
  shows "\<exists>R u'. viewport (updateRenderedRange (updateTotalContentSize t)) = Some u'
           \<and> renderedRange u' = R \<and> dataLength u' = dataLength u
           \<and> last (butlast (calls (updateRenderedRange (updateTotalContentSize t)))) = SetRenderedRange R
           \<and> 0 \<le> start R \<and> 0 \<le> end' R \<and> end' R \<le> dataLength u"
proof -
  let ?u = "u\<lparr>totalContentSize := getItemSize t (items t)\<rparr>"
  have "viewport (updateTotalContentSize t) = Some ?u"
    using assms(1) by (rule viewport_updateTotalContentSize)
  from updateRenderedRange_commits_within [OF this] assms(2-4)
  show ?thesis by simp
qed

text \<open>
  C2 (as amended). Every recomputation on an attached viewport, whether it is triggered by
  \<open>attach\<close>, \<open>onContentScrolled\<close>, \<open>onDataLengthChanged\<close> or a successful
  \<open>updateItemAndBufferSize\<close>, preserves the bounds of the indices: if the range that
  the viewport reports satisfies \<open>0 \<le> start\<close> and \<open>0 \<le> end \<le> dataLength\<close>, then so
  does the range passed to \<open>setRenderedRange\<close>, for every item collection, size
  function, thresholds and scroll offset. The order \<open>start \<le> end\<close> is not part of
  what is preserved.
\<close>

theorem recomputation_keeps_indices_within:
  assumes "s' = attach v s
         \<or> (viewport s = Some v
             \<and> (s' = onContentScrolled s \<or> s' = onDataLengthChanged s
                 \<or> updateItemAndBufferSize f xs minB maxB s = Returned s'))"
    and "0 \<le> start (renderedRange v)" and "0 \<le> end' (renderedRange v)"
    and "end' (renderedRange v) \<le> dataLength v"
  shows "\<exists>R v'. viewport s' = Some v' \<and> renderedRange v' = R \<and> dataLength v' = dataLength v
           \<and> last (butlast (calls s')) = SetRenderedRange R
           \<and> 0 \<le> start R \<and> 0 \<le> end' R \<and> end' R \<le> dataLength v"
proof -
  consider (att) "s' = attach v s"
    | (scr) "viewport s = Some v" "s' = onContentScrolled s"
    | (len) "viewport s = Some v" "s' = onDataLengthChanged s"
    | (upd) "viewport s = Some v" "updateItemAndBufferSize f xs minB maxB s = Returned s'"
    using assms(1) by blast
  then show ?thesis
  proof cases
    case att
    have "viewport (s\<lparr>viewport := Some v\<rparr>) = Some v" by simp
    from total_then_range_commits_within [OF this assms(2-4)] att
    show ?thesis by (simp add: attach_def)
  next
    case scr
    from updateRenderedRange_commits_within [OF scr(1) assms(2-4)] scr(2)
    show ?thesis by (simp add: onContentScrolled_def)
  next
    case len
    from total_then_range_commits_within [OF len(1) assms(2-4)] len(2)
    show ?thesis by (simp add: onDataLengthChanged_def)
  next
    case upd
    let ?t = "s\<lparr>items := xs, itemSizeFn := f, minBufferPx := minB, maxBufferPx := maxB\<rparr>"
    have t: "viewport ?t = Some v" using upd(1) by simp
    have "s' = updateRenderedRange (updateTotalContentSize ?t)"
      using upd(2) by (simp add: updateItemAndBufferSize_def split: if_splits)
    with total_then_range_commits_within [OF t assms(2-4)]
    show ?thesis by simp
  qed
qed

theorem recomputation_keeps_indices_within_witness:
  "\<exists>R v'. viewport (attach (viewport_at 0 50 5 0 0) (constructor id [20, 20, 20, 20, 20] 10 20)) = Some v'
      \<and> renderedRange v' = R \<and> dataLength v' = 5
      \<and> last (butlast (calls (attach (viewport_at 0 50 5 0 0) (constructor id [20, 20, 20, 20, 20] 10 20))))
          = SetRenderedRange R
      \<and> 0 \<le> start R \<and> 0 \<le> end' R \<and> end' R \<le> 5"
  using recomputation_keeps_indices_within
    [of "attach (viewport_at 0 50 5 0 0) (constructor id [20, 20, 20, 20, 20] 10 20)"
        "viewport_at 0 50 5 0 0" "constructor id [20, 20, 20, 20, 20] 10 20"]
  by (simp add: viewport_at_def)

text \<open>
  C2 as stated fails twice. With the sizes \<open>100, 10, 10, 10, 10, 10, 10\<close>, a viewport
  of \<open>10\<close> at scroll offset \<open>100\<close> and the thresholds \<open>10\<close> and \<open>20\<close>, the valid
  range \<open>{6, 7}\<close> becomes \<open>{5, 3}\<close>: both expansions count items from the head of the
  list. With three items of \<open>20\<close> and the reported range \<open>{0, 4}\<close> (the list has
  shrunk), neither branch fires and the end stays beyond the data length.
\<close>

theorem recomputation_breaks_range_invariant:
  "range_invariant \<lparr>start = 6, end' = 7\<rparr> 7
   \<and> map_option renderedRange
        (viewport (attach (viewport_at 100 10 7 6 7) (constructor id [100, 10, 10, 10, 10, 10, 10] 10 20)))
      = Some \<lparr>start = 5, end' = 3\<rparr>
   \<and> \<not> range_invariant \<lparr>start = 5, end' = 3\<rparr> 7
   \<and> map_option renderedRange
        (viewport (attach (viewport_at 0 50 3 0 4) (constructor id [20, 20, 20] 10 20)))
      = Some \<lparr>start = 0, end' = 4\<rparr>
   \<and> \<not> range_invariant \<lparr>start = 0, end' = 4\<rparr> 3"
  by code_simp

subsection \<open>Offsets below zero and the list of fifty items\<close>

lemma reference_walk_mono:
  "offset \<le> offset' \<Longrightarrow> reference_walk f offset acc xs \<le> reference_walk f offset' acc xs"
proof (induction xs arbitrary: acc)
  case Nil
  show ?case by simp
next
  case (Cons x xs)
  have "0 \<le> reference_walk f offset' (acc + f x) xs"
    using reference_walk_bounds [of f offset' "acc + f x" xs] by simp
  with Cons.IH [OF Cons.prems, of "acc + f x"] Cons.prems show ?case by simp
qed

lemma reference_walk_replicate:
  "0 \<le> f x \<Longrightarrow> acc + real k * f x \<le> offset \<Longrightarrow> k \<le> n \<Longrightarrow>
   int k \<le> reference_walk f offset acc (replicate n x)"
proof (induction n arbitrary: acc k)
  case 0
  then show ?case by simp
next
  case (Suc n)
  show ?case
  proof (cases k)
    case 0
    then show ?thesis
      using reference_walk_bounds [of f offset acc "replicate (Suc n) x"] by simp
  next
    case (Suc j)
    have step: "acc + f x + real j * f x \<le> offset"
      using Suc.prems(2) Suc by (simp add: algebra_simps)
    have "0 \<le> real j * f x"
      using Suc.prems(1) by simp
    with step Suc.prems(1) have here: "acc \<le> offset"
      by linarith
    have "int j \<le> reference_walk f offset (acc + f x) (replicate n x)"
      using Suc.IH [OF Suc.prems(1) step] Suc.prems(3) Suc by simp
    with here Suc show ?thesis by simp
  qed
qed

lemma getFirstVisibleIndex_negative: "offset < 0 \<Longrightarrow> getFirstVisibleIndex s offset = 0"
  by (cases "items s") (simp_all add: getFirstVisibleIndex_walk)

lemma getItemSize_slice0_replicate:
  assumes "items s = replicate n x" and "0 \<le> k" and "k \<le> int n"
  shows "getItemSize s (slice0 (items s) k) = real_of_int k * itemSizeFn s x"
proof -
  have "min n (nat k) = nat k"
    using assms(2,3) by linarith
  then show ?thesis
    using assms by (simp add: getItemSize_totalSize totalSize_def slice0_nonneg sum_list_replicate)
qed

lemma scenario_start:
  assumes xs: "items s = replicate 50 x" and size: "itemSizeFn s x = 20"
    and minB: "minBufferPx s = 100" and maxB: "maxBufferPx s = 200"
    and lo: "0 \<le> start r" and hi: "start r \<le> 50"
  shows "start (newRange s 0 (getFirstVisibleIndex s 0) r 500 dataLen) = 0"
proof (cases "start r = 0")
  case True
  have "getFirstVisibleIndex s 0 \<le> getFirstVisibleIndex s 100"
    unfolding getFirstVisibleIndex_walk by (rule reference_walk_mono) simp
  with True show ?thesis
    by (simp add: newRange_def Let_def minB)
next
  case False
  have size_before: "getItemSize s (slice0 (items s) (start r)) = real_of_int (start r) * 20"
    using getItemSize_slice0_replicate [OF xs lo] hi size by simp
  have "0 + real (nat (start r)) * itemSizeFn s x \<le> 200 + real_of_int (start r) * 20"
    using lo size by simp
  moreover have "nat (start r) \<le> 50"
    using hi by simp
  ultimately have "int (nat (start r))
      \<le> reference_walk (itemSizeFn s) (200 + real_of_int (start r) * 20) 0 (replicate 50 x)"
    using size by (intro reference_walk_replicate) simp_all
  then have "start r \<le> getFirstVisibleIndex s (200 + real_of_int (start r) * 20)"
    using lo by (simp add: getFirstVisibleIndex_walk xs)
  moreover have "0 - real_of_int (start r) * 20 < 100"
    using lo by simp
  ultimately show ?thesis
    using False by (simp add: newRange_def Let_def minB maxB size_before)
qed

text \<open>
  C3 (as amended). For every item collection and every offset below \<open>0\<close>,
  \<open>_getFirstVisibleIndex\<close> returns \<open>0\<close>. In the scenario of fifty items of \<open>20\<close>
  pixels each with a viewport of \<open>500\<close>, a minimum buffer of \<open>100\<close> and a maximum
  buffer of \<open>200\<close>, a recomputation at scroll offset \<open>0\<close>, from any reported range
  whose start lies between \<open>0\<close> and \<open>50\<close>, commits \<open>start = 0\<close> and the content
  offset \<open>0\<close>.
\<close>

theorem negative_offset_and_scenario_at_top:
  "(offset < 0 \<longrightarrow> getFirstVisibleIndex s offset = 0)
   \<and> (items t = replicate 50 x \<and> itemSizeFn t x = 20 \<and> minBufferPx t = 100 \<and> maxBufferPx t = 200
        \<and> viewport t = Some v \<and> scrollOffset v = 0 \<and> viewportSize v = 500
        \<and> 0 \<le> start (renderedRange v) \<and> start (renderedRange v) \<le> 50
      \<longrightarrow> (\<exists>v'. viewport (updateRenderedRange t) = Some v'
             \<and> start (renderedRange v') = 0 \<and> renderedContentOffset v' = 0))"
proof (intro conjI impI)
  assume "offset < 0"
  then show "getFirstVisibleIndex s offset = 0"
    by (rule getFirstVisibleIndex_negative)
next
  assume "items t = replicate 50 x \<and> itemSizeFn t x = 20 \<and> minBufferPx t = 100 \<and> maxBufferPx t = 200
        \<and> viewport t = Some v \<and> scrollOffset v = 0 \<and> viewportSize v = 500
        \<and> 0 \<le> start (renderedRange v) \<and> start (renderedRange v) \<le> 50"
  then have xs: "items t = replicate 50 x" and size: "itemSizeFn t x = 20"
    and minB: "minBufferPx t = 100" and maxB: "maxBufferPx t = 200"
    and att: "viewport t = Some v" and off: "scrollOffset v = 0" and vs: "viewportSize v = 500"
    and lo: "0 \<le> start (renderedRange v)" and hi: "start (renderedRange v) \<le> 50"
    by blast+
  have "start (newRange t 0 (getFirstVisibleIndex t 0) (renderedRange v) 500 (dataLength v)) = 0"
    using xs size minB maxB lo hi by (rule scenario_start)
  then have "start (committed t v) = 0"
    by (simp add: committed_def off vs)
  then show "\<exists>v'. viewport (updateRenderedRange t) = Some v'
             \<and> start (renderedRange v') = 0 \<and> renderedContentOffset v' = 0"
    by (simp add: viewport_updateRenderedRange [OF att] getItemSize_def slice0_def)
qed

theorem negative_offset_and_scenario_at_top_witness:
  "getFirstVisibleIndex (constructor id (replicate 50 20) 100 200) (- 1) = 0
   \<and> (\<exists>v'. viewport (updateRenderedRange
               ((constructor id (replicate 50 20) 100 200)\<lparr>viewport := Some (viewport_at 0 500 50 0 0)\<rparr>))
             = Some v'
          \<and> start (renderedRange v') = 0 \<and> renderedContentOffset v' = 0)"
  using negative_offset_and_scenario_at_top
    [of "- 1" "constructor id (replicate 50 20) 100 200"
        "(constructor id (replicate 50 20) 100 200)\<lparr>viewport := Some (viewport_at 0 500 50 0 0)\<rparr>"
        20 "viewport_at 0 500 50 0 0"]
  by (simp add: constructor_def viewport_at_def)

text \<open>
  C3 as stated fails at the offset \<open>0\<close> itself: the walk consumes the first item, since
  \<open>0 > 0\<close> is false, so in the scenario the index for the offset \<open>0\<close> is \<open>1\<close>, and
  \<open>1\<close> is the value that the recomputation publishes.
\<close>

theorem first_index_at_offset_zero_is_one:
  "getFirstVisibleIndex (constructor id (replicate 50 20) 100 200) 0 = 1
   \<and> delivered (attach (viewport_at 0 500 50 0 0) (constructor id (replicate 50 20) 100 200)) = [1]"
  by code_simp

subsection \<open>Configuration\<close>

lemma config_updateRenderedRange:
  "items (updateRenderedRange s) = items s \<and> itemSizeFn (updateRenderedRange s) = itemSizeFn s
   \<and> minBufferPx (updateRenderedRange s) = minBufferPx s
   \<and> maxBufferPx (updateRenderedRange s) = maxBufferPx s"
  by (simp add: updateRenderedRange_def Let_def subject_next_def distinctUntilChanged_def
      split: option.split)

lemma config_updateTotalContentSize:
  "items (updateTotalContentSize s) = items s \<and> itemSizeFn (updateTotalContentSize s) = itemSizeFn s
   \<and> minBufferPx (updateTotalContentSize s) = minBufferPx s
   \<and> maxBufferPx (updateTotalContentSize s) = maxBufferPx s"
  by (simp add: updateTotalContentSize_def Let_def split: option.split)

lemma getItemSize_same_config:
  "itemSizeFn s = itemSizeFn t \<Longrightarrow> getItemSize s data = getItemSize t data"
  by (simp add: getItemSize_def)

lemma getFirstVisibleIndex_same_config:
  "itemSizeFn s = itemSizeFn t \<Longrightarrow> items s = items t \<Longrightarrow>
   getFirstVisibleIndex s offset = getFirstVisibleIndex t offset"
  by (simp add: getFirstVisibleIndex_def)

lemma newRange_same_config:
  assumes "itemSizeFn s = itemSizeFn t" and "items s = items t"
    and "minBufferPx s = minBufferPx t" and "maxBufferPx s = maxBufferPx t"
  shows "newRange s scrollOff fvi r viewportSz dataLen = newRange t scrollOff fvi r viewportSz dataLen"
proof -
  have a: "\<And>data. getItemSize s data = getItemSize t data"
    using assms(1) by (rule getItemSize_same_config)
  have b: "\<And>offset. getFirstVisibleIndex s offset = getFirstVisibleIndex t offset"
    using assms(1,2) by (rule getFirstVisibleIndex_same_config)
  show ?thesis
    unfolding newRange_def by (simp only: a b assms(2,3,4))
qed

lemma committed_after_total:
  "committed (updateTotalContentSize t) (u\<lparr>totalContentSize := p\<rparr>) = committed t u"
proof -
  have "getFirstVisibleIndex (updateTotalContentSize t) (scrollOffset u)
        = getFirstVisibleIndex t (scrollOffset u)"
    by (rule getFirstVisibleIndex_same_config) (simp_all add: config_updateTotalContentSize)
  moreover have "\<And>fvi. newRange (updateTotalContentSize t) (scrollOffset u) fvi (renderedRange u)
          (viewportSize u) (dataLength u)
        = newRange t (scrollOffset u) fvi (renderedRange u) (viewportSize u) (dataLength u)"
    by (rule newRange_same_config) (simp_all add: config_updateTotalContentSize)
  ultimately show ?thesis
    by (simp add: committed_def)
qed

text \<open>
  C5. For every state and every call of \<open>updateItemAndBufferSize\<close> with
  \<open>maxBufferPx < minBufferPx\<close>, the call throws and leaves the whole state, in particular
  the items, the size function and the two thresholds, unchanged. With
  \<open>maxBufferPx \<ge> minBufferPx\<close> it replaces all four and then recomputes the total
  content size and the rendered range: on an attached viewport the next viewport call is
  \<open>setTotalContentSize\<close> with the sum of the new sizes, and the range committed is the
  one computed from the new configuration.
\<close>

theorem updateItemAndBufferSize_all_or_nothing:
  "(maxB < minB \<longrightarrow>
      updateItemAndBufferSize f xs minB maxB s
      = Threw (Error ''CDK virtual scroll: maxBufferPx must be greater than or equal to minBufferPx'') s)
   \<and> (minB \<le> maxB \<longrightarrow>
        (\<exists>s'. updateItemAndBufferSize f xs minB maxB s = Returned s'
           \<and> s' = updateRenderedRange (updateTotalContentSize
                  (s\<lparr>items := xs, itemSizeFn := f, minBufferPx := minB, maxBufferPx := maxB\<rparr>))
           \<and> items s' = xs \<and> itemSizeFn s' = f \<and> minBufferPx s' = minB \<and> maxBufferPx s' = maxB
           \<and> (\<forall>v. viewport s = Some v \<longrightarrow>
                 map_option totalContentSize (viewport s') = Some (totalSize f xs)
                 \<and> take (Suc (length (calls s))) (calls s')
                   = calls s @ [SetTotalContentSize (totalSize f xs)]
                 \<and> map_option renderedRange (viewport s')
                   = Some (committed (s\<lparr>items := xs, itemSizeFn := f, minBufferPx := minB,
                                        maxBufferPx := maxB\<rparr>) v))))"
proof (intro conjI impI)
  assume "maxB < minB"
  then show "updateItemAndBufferSize f xs minB maxB s
      = Threw (Error ''CDK virtual scroll: maxBufferPx must be greater than or equal to minBufferPx'') s"
    by (simp add: updateItemAndBufferSize_def)
next
  assume ok: "minB \<le> maxB"
  let ?t = "s\<lparr>items := xs, itemSizeFn := f, minBufferPx := minB, maxBufferPx := maxB\<rparr>"
  let ?s' = "updateRenderedRange (updateTotalContentSize ?t)"
  have ret: "updateItemAndBufferSize f xs minB maxB s = Returned ?s'"
    using ok by (simp add: updateItemAndBufferSize_def)
  have cfg: "items ?s' = xs \<and> itemSizeFn ?s' = f \<and> minBufferPx ?s' = minB \<and> maxBufferPx ?s' = maxB"
    by (simp add: config_updateRenderedRange config_updateTotalContentSize)
  have att: "\<forall>v. viewport s = Some v \<longrightarrow>
                 map_option totalContentSize (viewport ?s') = Some (totalSize f xs)
                 \<and> take (Suc (length (calls s))) (calls ?s')
                   = calls s @ [SetTotalContentSize (totalSize f xs)]
                 \<and> map_option renderedRange (viewport ?s') = Some (committed ?t v)"
  proof (intro allI impI)
    fix v
    assume v: "viewport s = Some v"
    then have t: "viewport ?t = Some v" by simp
    let ?u = "v\<lparr>totalContentSize := getItemSize ?t (items ?t)\<rparr>"
    have u: "viewport (updateTotalContentSize ?t) = Some ?u"
      using t by (rule viewport_updateTotalContentSize)
    have same: "committed (updateTotalContentSize ?t) ?u = committed ?t v"
      by (rule committed_after_total)
    show "map_option totalContentSize (viewport ?s') = Some (totalSize f xs)
                 \<and> take (Suc (length (calls s))) (calls ?s')
                   = calls s @ [SetTotalContentSize (totalSize f xs)]
                 \<and> map_option renderedRange (viewport ?s') = Some (committed ?t v)"
      using same
      by (simp add: viewport_updateRenderedRange [OF u] calls_updateRenderedRange [OF u]
          calls_updateTotalContentSize [OF t] getItemSize_totalSize)
  qed
  from ret cfg att show "\<exists>s'. updateItemAndBufferSize f xs minB maxB s = Returned s'
           \<and> s' = ?s'
           \<and> items s' = xs \<and> itemSizeFn s' = f \<and> minBufferPx s' = minB \<and> maxBufferPx s' = maxB
           \<and> (\<forall>v. viewport s = Some v \<longrightarrow>
                 map_option totalContentSize (viewport s') = Some (totalSize f xs)
                 \<and> take (Suc (length (calls s))) (calls s')
                   = calls s @ [SetTotalContentSize (totalSize f xs)]
                 \<and> map_option renderedRange (viewport s') = Some (committed ?t v))"
    by blast
qed

theorem updateItemAndBufferSize_all_or_nothing_witness:
  "updateItemAndBufferSize id [1, 2] 200 100
     ((constructor id [20] 100 200)\<lparr>viewport := Some (viewport_at 0 500 1 0 0)\<rparr>)
   = Threw (Error ''CDK virtual scroll: maxBufferPx must be greater than or equal to minBufferPx'')
       ((constructor id [20] 100 200)\<lparr>viewport := Some (viewport_at 0 500 1 0 0)\<rparr>)
   \<and> (\<exists>s'. updateItemAndBufferSize id [1, 2] 150 150
              ((constructor id [20] 100 200)\<lparr>viewport := Some (viewport_at 0 500 1 0 0)\<rparr>)
            = Returned s'
          \<and> items s' = [1, 2] \<and> minBufferPx s' = 150 \<and> maxBufferPx s' = 150
          \<and> map_option totalContentSize (viewport s') = Some 3)"
  using updateItemAndBufferSize_all_or_nothing
      [of 100 200 id "[1, 2]" "(constructor id [20] 100 200)\<lparr>viewport := Some (viewport_at 0 500 1 0 0)\<rparr>"]
    updateItemAndBufferSize_all_or_nothing
      [of 150 150 id "[1, 2]" "(constructor id [20] 100 200)\<lparr>viewport := Some (viewport_at 0 500 1 0 0)\<rparr>"]
  by (simp add: totalSize_def)

text \<open>
  C6. The claim is that the constructor rejects \<open>maxBufferPx < minBufferPx\<close>. The
  constructor of the source stores its four arguments without any check: with the
  thresholds \<open>200\<close> and \<open>100\<close> it yields a strategy that holds them, while
  \<open>updateItemAndBufferSize\<close> throws on the same thresholds.
\<close>

theorem constructor_accepts_inverted_thresholds:
  "minBufferPx (constructor id [] 200 100) = 200 \<and> maxBufferPx (constructor id [] 200 100) = 100
   \<and> updateItemAndBufferSize id [] 200 100 (constructor id [] 200 100)
     = Threw (Error ''CDK virtual scroll: maxBufferPx must be greater than or equal to minBufferPx'')
         (constructor id [] 200 100)"
  by (simp add: constructor_def updateItemAndBufferSize_def)

subsection \<open>Detaching\<close>

lemma detach_state:
  "stopped (detach s) \<and> viewport (detach s) = None \<and> calls (detach s) = calls s
   \<and> delivered (detach s) = delivered s"
  by (simp add: detach_def subject_complete_def)

lemma detach_twice: "detach (detach s) = detach s"
  by (simp add: detach_def subject_complete_def)

lemma detached_call:
  assumes "viewport t = None" and "\<not> is_Attach c"
  shows "viewport (state_of (perform c t)) = None
       \<and> calls (state_of (perform c t)) = calls t
       \<and> delivered (state_of (perform c t)) = delivered t
       \<and> (stopped t \<longrightarrow> stopped (state_of (perform c t)))"
proof (cases c)
  case (Attach v)
  with assms(2) show ?thesis by simp
next
  case Detach
  then show ?thesis by (simp add: detach_state)
next
  case (UpdateItemAndBufferSize f xs minB maxB)
  let ?t = "t\<lparr>items := xs, itemSizeFn := f, minBufferPx := minB, maxBufferPx := maxB\<rparr>"
  have "viewport ?t = None" using assms(1) by simp
  then have "updateRenderedRange (updateTotalContentSize ?t) = ?t"
    by (simp add: updateTotalContentSize_detached updateRenderedRange_detached)
  with UpdateItemAndBufferSize assms(1) show ?thesis
    by (simp add: updateItemAndBufferSize_def)
next
  case OnContentScrolled
  with assms(1) show ?thesis
    by (simp add: onContentScrolled_def updateRenderedRange_detached)
next
  case OnDataLengthChanged
  with assms(1) show ?thesis
    by (simp add: onDataLengthChanged_def updateTotalContentSize_detached updateRenderedRange_detached)
next
  case OnContentRendered
  with assms(1) show ?thesis by (simp add: onContentRendered_def)
next
  case OnRenderedOffsetChanged
  with assms(1) show ?thesis by (simp add: onRenderedOffsetChanged_def)
next
  case (ScrollToIndex index behavior)
  with assms(1) show ?thesis by (simp add: scrollToIndex_def)
qed

lemma detached_calls:
  "viewport t = None \<Longrightarrow> stopped t \<Longrightarrow> \<forall>c \<in> set cs. \<not> is_Attach c \<Longrightarrow>
   viewport (after_calls cs t) = None \<and> calls (after_calls cs t) = calls t
   \<and> delivered (after_calls cs t) = delivered t \<and> stopped (after_calls cs t)"
proof (induction cs arbitrary: t)
  case Nil
  then show ?case by simp
next
  case (Cons c cs)
  have c: "\<not> is_Attach c" using Cons.prems(3) by simp
  note one = detached_call [OF Cons.prems(1) c]
  have "viewport (after_calls cs (state_of (perform c t))) = None
    \<and> calls (after_calls cs (state_of (perform c t))) = calls (state_of (perform c t))
    \<and> delivered (after_calls cs (state_of (perform c t))) = delivered (state_of (perform c t))
    \<and> stopped (after_calls cs (state_of (perform c t)))"
    using one Cons.prems(2,3) by (intro Cons.IH) simp_all
  with one show ?case by simp
qed

text \<open>
  C7. After \<open>detach\<close> the output stream is closed and the viewport reference is
  dropped. Every sequence of further calls that contains no \<open>attach\<close>
  (\<open>onContentScrolled\<close>, \<open>onDataLengthChanged\<close>, \<open>updateItemAndBufferSize\<close>,
  \<open>scrollToIndex\<close>, further calls of \<open>detach\<close>, and the two no-ops) makes no
  viewport call and delivers no further value; a second \<open>detach\<close> returns normally and
  changes nothing.
\<close>

theorem nothing_happens_after_detach:
  assumes "\<forall>c \<in> set cs. \<not> is_Attach c"
  shows "stopped (detach s) \<and> viewport (detach s) = None
       \<and> perform Detach (detach s) = Returned (detach s)
       \<and> calls (after_calls cs (detach s)) = calls (detach s)
       \<and> delivered (after_calls cs (detach s)) = delivered (detach s)
       \<and> stopped (after_calls cs (detach s)) \<and> viewport (after_calls cs (detach s)) = None"
proof -
  have "viewport (detach s) = None" and "stopped (detach s)"
    by (simp_all add: detach_state)
  from detached_calls [OF this assms] show ?thesis
    by (simp add: detach_state detach_twice)
qed

theorem nothing_happens_after_detach_witness:
  "calls (after_calls [OnContentScrolled, OnDataLengthChanged, ScrollToIndex 3 Smooth, Detach,
                       UpdateItemAndBufferSize id [5, 5] 10 20, OnContentScrolled]
           (detach (attach (viewport_at 0 50 5 0 0) (constructor id [20, 20, 20, 20, 20] 10 20))))
   = calls (detach (attach (viewport_at 0 50 5 0 0) (constructor id [20, 20, 20, 20, 20] 10 20)))
   \<and> delivered (after_calls [OnContentScrolled, OnDataLengthChanged, ScrollToIndex 3 Smooth, Detach,
                       UpdateItemAndBufferSize id [5, 5] 10 20, OnContentScrolled]
           (detach (attach (viewport_at 0 50 5 0 0) (constructor id [20, 20, 20, 20, 20] 10 20))))
   = [1]"
proof -
  have none: "\<forall>c \<in> set [OnContentScrolled, OnDataLengthChanged, ScrollToIndex 3 Smooth, Detach,
                       UpdateItemAndBufferSize id [5, 5] (10::real) 20, OnContentScrolled]. \<not> is_Attach c"
    by simp
  have "delivered (detach (attach (viewport_at 0 50 5 0 0) (constructor id [20, 20, 20, 20, 20] 10 20))) = [1]"
    by code_simp
  with nothing_happens_after_detach [OF none,
      of "attach (viewport_at 0 50 5 0 0) (constructor id [20, 20, 20, 20, 20] 10 20)"]
  show ?thesis by simp
qed

subsection \<open>Repeated scroll events\<close>

lemma stream_updateRenderedRange:
  assumes "viewport s = Some v"
  shows "stopped (updateRenderedRange s) = stopped s
       \<and> (\<not> stopped s \<longrightarrow>
            lastPassed (updateRenderedRange s) = Some (getFirstVisibleIndex s (scrollOffset v)))
       \<and> delivered (updateRenderedRange s)
         = (if stopped s \<or> lastPassed s = Some (getFirstVisibleIndex s (scrollOffset v))
            then delivered s
            else delivered s @ [getFirstVisibleIndex s (scrollOffset v)])"
  using assms
  by (simp add: updateRenderedRange_def Let_def subject_next_def distinctUntilChanged_def
      measureScrollOffset_def)

lemma second_pass_delivers_nothing:
  assumes att: "viewport s = Some v" and same: "scrollOffset v2 = scrollOffset v"
  shows "delivered (updateRenderedRange ((updateRenderedRange s)\<lparr>viewport := Some v2\<rparr>))
         = delivered (updateRenderedRange s)"
proof -
  let ?s1 = "(updateRenderedRange s)\<lparr>viewport := Some v2\<rparr>"
  have att1: "viewport ?s1 = Some v2" by simp
  have idx: "getFirstVisibleIndex ?s1 (scrollOffset v2) = getFirstVisibleIndex s (scrollOffset v)"
    unfolding same
    by (rule getFirstVisibleIndex_same_config) (simp_all add: config_updateRenderedRange)
  note first = stream_updateRenderedRange [OF att]
  have "stopped ?s1 \<or> lastPassed ?s1 = Some (getFirstVisibleIndex ?s1 (scrollOffset v2))"
    using first idx by auto
  then have "delivered (updateRenderedRange ?s1) = delivered ?s1"
    using stream_updateRenderedRange [OF att1] by simp
  then show ?thesis by simp
qed

text \<open>
  C8 (as amended). Two calls of \<open>onContentScrolled\<close> in succession with no change of
  the scroll offset publish the same first visible index, so the second call delivers
  nothing on the output stream: consecutive identical values are suppressed. This holds
  when the viewport is left as the first call wrote it, and also when the host changes
  anything but the scroll offset in between. Nothing is said about the second range.
\<close>

theorem repeated_scroll_event_publishes_nothing_new:
  "delivered (onContentScrolled (onContentScrolled s)) = delivered (onContentScrolled s)
   \<and> (viewport s = Some v \<and> scrollOffset v2 = scrollOffset v \<longrightarrow>
        delivered (onContentScrolled ((onContentScrolled s)\<lparr>viewport := Some v2\<rparr>))
        = delivered (onContentScrolled s))"
proof (intro conjI impI)
  show "delivered (onContentScrolled (onContentScrolled s)) = delivered (onContentScrolled s)"
  proof (cases "viewport s")
    case None
    then show ?thesis
      by (simp add: onContentScrolled_def updateRenderedRange_detached)
  next
    case (Some u)
    let ?u1 = "u\<lparr>renderedRange := committed s u,
                  renderedContentOffset := getItemSize s (slice0 (items s) (start (committed s u)))\<rparr>"
    have "viewport (updateRenderedRange s) = Some ?u1"
      using Some by (rule viewport_updateRenderedRange)
    then have "(updateRenderedRange s)\<lparr>viewport := Some ?u1\<rparr> = updateRenderedRange s"
      by (cases "updateRenderedRange s") simp
    moreover have "scrollOffset ?u1 = scrollOffset u" by simp
    ultimately show ?thesis
      using second_pass_delivers_nothing [OF Some, of ?u1] by (simp add: onContentScrolled_def)
  qed
next
  assume "viewport s = Some v \<and> scrollOffset v2 = scrollOffset v"
  then show "delivered (onContentScrolled ((onContentScrolled s)\<lparr>viewport := Some v2\<rparr>))
        = delivered (onContentScrolled s)"
    by (simp add: onContentScrolled_def second_pass_delivers_nothing)
qed

theorem repeated_scroll_event_publishes_nothing_new_witness:
  "delivered (onContentScrolled
      ((onContentScrolled ((constructor id (replicate 12 10) 15 30)\<lparr>viewport := Some (viewport_at 40 20 12 0 6)\<rparr>))
         \<lparr>viewport := Some (viewport_at 40 20 12 3 10)\<rparr>))
   = [5]"
proof -
  have "delivered (onContentScrolled
          ((constructor id (replicate 12 10) 15 30)\<lparr>viewport := Some (viewport_at 40 20 12 0 6)\<rparr>)) = [5]"
    by code_simp
  with repeated_scroll_event_publishes_nothing_new
    [of "(constructor id (replicate 12 10) 15 30)\<lparr>viewport := Some (viewport_at 40 20 12 0 6)\<rparr>"
        "viewport_at 40 20 12 0 6" "viewport_at 40 20 12 3 10"]
  show ?thesis by (simp add: viewport_at_def)
qed

text \<open>
  C8 as stated fails in its first half. With twelve items of \<open>10\<close>, a viewport of
  \<open>20\<close> at scroll offset \<open>40\<close>, the thresholds \<open>15\<close> and \<open>30\<close> and the reported
  range \<open>{0, 6}\<close>, the first call commits \<open>{3, 10}\<close> by the end-side expansion; the
  start buffer is then \<open>10 < 15\<close>, so the second call, at the same scroll offset,
  takes the start-side expansion and commits \<open>{0, 9}\<close>.
\<close>

theorem repeated_scroll_event_changes_range:
  "map_option renderedRange (viewport (onContentScrolled
      ((constructor id (replicate 12 10) 15 30)\<lparr>viewport := Some (viewport_at 40 20 12 0 6)\<rparr>)))
   = Some \<lparr>start = 3, end' = 10\<rparr>
   \<and> map_option renderedRange (viewport (onContentScrolled (onContentScrolled
      ((constructor id (replicate 12 10) 15 30)\<lparr>viewport := Some (viewport_at 40 20 12 0 6)\<rparr>))))
   = Some \<lparr>start = 0, end' = 9\<rparr>
   \<and> map_option scrollOffset (viewport (onContentScrolled
      ((constructor id (replicate 12 10) 15 30)\<lparr>viewport := Some (viewport_at 40 20 12 0 6)\<rparr>)))
   = Some 40"
  by code_simp

subsection \<open>Which events touch the total content size\<close>

text \<open>
  C9. \<open>onContentScrolled\<close> recomputes the rendered range only: none of the viewport
  calls it makes is \<open>setTotalContentSize\<close>, and the total content size of the viewport
  is unchanged. \<open>onDataLengthChanged\<close> is \<open>_updateTotalContentSize\<close> followed by
  \<open>_updateRenderedRange\<close>: on an attached viewport it first commits the sum of the
  sizes of all items as the total content size and then recomputes and commits the
  rendered range.
\<close>

theorem scrolling_and_data_length_change:
  "(\<exists>cs. calls (onContentScrolled s) = calls s @ cs \<and> (\<forall>p. SetTotalContentSize p \<notin> set cs))
   \<and> map_option totalContentSize (viewport (onContentScrolled s))
     = map_option totalContentSize (viewport s)
   \<and> onDataLengthChanged s = updateRenderedRange (updateTotalContentSize s)
   \<and> (viewport s = Some v \<longrightarrow>
        map_option totalContentSize (viewport (onDataLengthChanged s))
          = Some (totalSize (itemSizeFn s) (items s))
        \<and> calls (onDataLengthChanged s)
          = calls s @ [SetTotalContentSize (totalSize (itemSizeFn s) (items s)),
                       MeasureScrollOffset, GetRenderedRange, GetViewportSize, GetDataLength,
                       SetRenderedRange (committed s v),
                       SetRenderedContentOffset
                         (getItemSize s (slice0 (items s) (start (committed s v))))])"
proof (intro conjI impI)
  show "\<exists>cs. calls (onContentScrolled s) = calls s @ cs \<and> (\<forall>p. SetTotalContentSize p \<notin> set cs)"
  proof (cases "viewport s")
    case None
    then show ?thesis
      by (simp add: onContentScrolled_def updateRenderedRange_detached)
  next
    case (Some u)
    show ?thesis
      unfolding onContentScrolled_def calls_updateRenderedRange [OF Some] by simp
  qed
next
  show "map_option totalContentSize (viewport (onContentScrolled s))
     = map_option totalContentSize (viewport s)"
  proof (cases "viewport s")
    case None
    then show ?thesis
      by (simp add: onContentScrolled_def updateRenderedRange_detached)
  next
    case (Some u)
    then show ?thesis
      by (simp add: onContentScrolled_def viewport_updateRenderedRange [OF Some])
  qed
next
  show "onDataLengthChanged s = updateRenderedRange (updateTotalContentSize s)"
    by (simp add: onDataLengthChanged_def)
next
  assume att: "viewport s = Some v"
  let ?u = "v\<lparr>totalContentSize := getItemSize s (items s)\<rparr>"
  have u: "viewport (updateTotalContentSize s) = Some ?u"
    using att by (rule viewport_updateTotalContentSize)
  have same: "committed (updateTotalContentSize s) ?u = committed s v"
    by (rule committed_after_total)
  have size: "\<And>data. getItemSize (updateTotalContentSize s) data = getItemSize s data"
    by (rule getItemSize_same_config) (simp add: config_updateTotalContentSize)
  show "map_option totalContentSize (viewport (onDataLengthChanged s))
          = Some (totalSize (itemSizeFn s) (items s))"
    by (simp add: onDataLengthChanged_def viewport_updateRenderedRange [OF u] getItemSize_totalSize)
  show "calls (onDataLengthChanged s)
          = calls s @ [SetTotalContentSize (totalSize (itemSizeFn s) (items s)),
                       MeasureScrollOffset, GetRenderedRange, GetViewportSize, GetDataLength,
                       SetRenderedRange (committed s v),
                       SetRenderedContentOffset
                         (getItemSize s (slice0 (items s) (start (committed s v))))]"
    unfolding onDataLengthChanged_def calls_updateRenderedRange [OF u] same size
    by (simp add: calls_updateTotalContentSize [OF att] config_updateTotalContentSize
        getItemSize_totalSize)
qed

theorem scrolling_and_data_length_change_witness:
  "calls (onDataLengthChanged
      ((constructor id [20, 20, 20, 20, 20] 10 20)\<lparr>viewport := Some (viewport_at 0 50 5 0 0)\<rparr>))
   = [SetTotalContentSize 100, MeasureScrollOffset, GetRenderedRange, GetViewportSize, GetDataLength,
      SetRenderedRange \<lparr>start = 0, end' = 4\<rparr>, SetRenderedContentOffset 0]
   \<and> calls (onContentScrolled
      ((constructor id [20, 20, 20, 20, 20] 10 20)\<lparr>viewport := Some (viewport_at 0 50 5 0 0)\<rparr>))
   = [MeasureScrollOffset, GetRenderedRange, GetViewportSize, GetDataLength,
      SetRenderedRange \<lparr>start = 0, end' = 4\<rparr>, SetRenderedContentOffset 0]"
proof -
  let ?s = "(constructor id [20, 20, 20, 20, 20] 10 20)\<lparr>viewport := Some (viewport_at 0 50 5 0 0)\<rparr>"
  have att: "viewport ?s = Some (viewport_at 0 50 5 0 0)"
    by simp
  have r: "committed ?s (viewport_at 0 50 5 0 0) = \<lparr>start = 0, end' = 4\<rparr>"
    by code_simp
  have c: "calls ?s = []" and t: "totalSize (itemSizeFn ?s) (items ?s) = 100"
    and o: "getItemSize ?s (slice0 (items ?s) 0) = 0"
    by (simp_all add: constructor_def totalSize_def getItemSize_def slice0_def)
  have "calls (onContentScrolled ?s)
   = [MeasureScrollOffset, GetRenderedRange, GetViewportSize, GetDataLength,
      SetRenderedRange \<lparr>start = 0, end' = 4\<rparr>, SetRenderedContentOffset 0]"
    by code_simp
  moreover have "calls (onDataLengthChanged ?s)
          = calls ?s @ [SetTotalContentSize (totalSize (itemSizeFn ?s) (items ?s)),
                       MeasureScrollOffset, GetRenderedRange, GetViewportSize, GetDataLength,
                       SetRenderedRange (committed ?s (viewport_at 0 50 5 0 0)),
                       SetRenderedContentOffset
                         (getItemSize ?s (slice0 (items ?s) (start (committed ?s (viewport_at 0 50 5 0 0)))))]"
    using scrolling_and_data_length_change [of ?s "viewport_at 0 50 5 0 0"] att by blast
  ultimately show ?thesis
    unfolding r c t using o by simp
qed

end
